theory Spec2Isabelle
  imports Complex_Main "HOL-Library.Char_ord" "HOL-Library.List_Lexorder"
begin

section \<open>Video sorter: paths, labels, queue, log and undo\<close>

text \<open>
  A shallow embedding of \<^verbatim>\<open>src/main.py\<close>. Strings are lists of 8-bit characters.
  A \<^verbatim>\<open>pathlib.Path\<close> is modelled in its POSIX flavour: a root (\<^verbatim>\<open>''\<close>, \<^verbatim>\<open>'/'\<close> or
  \<^verbatim>\<open>'//'\<close>) and the list of its components.
\<close>

subsection \<open>Paths\<close>

datatype path = PurePath (root: string) (parts: "string list")

text \<open>\<^verbatim>\<open>str.split(sep)\<close>: the pieces between the separators, empty pieces included.\<close>

fun split_on :: "char \<Rightarrow> string \<Rightarrow> string list" where
  "split_on c [] = [[]]"
| "split_on c (x # xs) =
     (if x = c then [] # split_on c xs
      else (case split_on c xs of [] \<Rightarrow> [[x]] | w # ws \<Rightarrow> (x # w) # ws))"

text \<open>\<^verbatim>\<open>posixpath.splitroot\<close>: exactly two leading slashes are kept, any other number is one.\<close>

definition parse_root :: "string \<Rightarrow> string" where
  "parse_root s =
     (if take 1 s \<noteq> ''/'' then ''''
      else if take 1 (drop 1 s) \<noteq> ''/'' \<or> take 1 (drop 2 s) = ''/'' then ''/''
      else ''//'')"

text \<open>\<^verbatim>\<open>Path(s)\<close>: empty components and \<^verbatim>\<open>'.'\<close> components are dropped.\<close>

definition Path_of :: "string \<Rightarrow> path" where
  "Path_of s = PurePath (parse_root s) (filter (\<lambda>x. x \<noteq> '''' \<and> x \<noteq> ''.'') (split_on CHR ''/'' s))"

fun join_sep :: "string list \<Rightarrow> string" where
  "join_sep [] = ''''"
| "join_sep [x] = x"
| "join_sep (x # y # ys) = x @ ''/'' @ join_sep (y # ys)"

text \<open>\<^verbatim>\<open>str(p)\<close>: the root and the components joined by the separator, or \<^verbatim>\<open>'.'\<close>.\<close>

definition str_of :: "path \<Rightarrow> string" where
  "str_of p = (let s = root p @ join_sep (parts p) in if s = '''' then ''.'' else s)"

definition is_absolute :: "path \<Rightarrow> bool" where
  "is_absolute p = (root p \<noteq> '''')"

text \<open>\<^verbatim>\<open>p / q\<close>: an absolute right operand replaces the left one.\<close>

definition joinpath :: "path \<Rightarrow> path \<Rightarrow> path" where
  "joinpath p q = (if is_absolute q then q else PurePath (root p) (parts p @ parts q))"

definition parent :: "path \<Rightarrow> path" where
  "parent p = PurePath (root p) (butlast (parts p))"

definition name :: "path \<Rightarrow> string" where
  "name p = (if parts p = [] then '''' else last (parts p))"

text \<open>\<^verbatim>\<open>str.rfind\<close>, with \<open>None\<close> for \<^verbatim>\<open>-1\<close>.\<close>

fun rfind :: "char \<Rightarrow> string \<Rightarrow> nat option" where
  "rfind c [] = None"
| "rfind c (x # xs) =
     (case rfind c xs of
        Some i \<Rightarrow> Some (Suc i)
      | None \<Rightarrow> if x = c then Some 0 else None)"

text \<open>\<^verbatim>\<open>i = name.rfind('.'); if 0 < i < len(name) - 1: return name[i:]\<close>, else \<^verbatim>\<open>''\<close>.\<close>

definition suffix_of_name :: "string \<Rightarrow> string" where
  "suffix_of_name n =
     (case rfind CHR ''.'' n of
        None \<Rightarrow> ''''
      | Some i \<Rightarrow> if 0 < i \<and> Suc i < length n then drop i n else '''')"

definition stem_of_name :: "string \<Rightarrow> string" where
  "stem_of_name n =
     (case rfind CHR ''.'' n of
        None \<Rightarrow> n
      | Some i \<Rightarrow> if 0 < i \<and> Suc i < length n then take i n else n)"

definition suffix :: "path \<Rightarrow> string" where
  "suffix p = suffix_of_name (name p)"

definition stem :: "path \<Rightarrow> string" where
  "stem p = stem_of_name (name p)"

text \<open>
  \<^verbatim>\<open>str.lower\<close>, on the UTF-8 bytes of the string. The letters A to Z become a to z, and
  KELVIN SIGN (the bytes E2 84 AA), the one character outside ASCII whose lower case is an
  ASCII letter, becomes k. The bytes of every other character are kept: its lower case has
  bytes outside ASCII as well, so the result is ASCII exactly when Python's is, and then
  the two are equal. The supported extensions are ASCII.
\<close>

definition lower_char :: "char \<Rightarrow> char" where
  "lower_char c =
     (let n = (of_char c :: nat) in if 65 \<le> n \<and> n \<le> 90 then char_of (n + 32) else c)"

fun lower :: "string \<Rightarrow> string" where
  "lower (a # b # c # cs) =
     (if a = CHR 0xE2 \<and> b = CHR 0x84 \<and> c = CHR 0xAA then CHR ''k'' # lower cs
      else lower_char a # lower (b # c # cs))"
| "lower (a # cs) = lower_char a # lower cs"
| "lower [] = []"

definition SUPPORTED_EXTENSIONS :: "string set" where
  "SUPPORTED_EXTENSIONS = {''.mp4'', ''.mov'', ''.avi'', ''.mkv'', ''.mpg'', ''.mpeg'', ''.wmv''}"

text \<open>
  The order of \<^verbatim>\<open>sorted\<close> on paths: the lists of components compared lexicographically,
  the root first when there is one.
\<close>

definition path_key :: "path \<Rightarrow> string list" where
  "path_key p = (if root p = '''' then parts p else root p # parts p)"

subsection \<open>Labels\<close>

record raw_label =
  raw_key :: string
  raw_name :: string
  raw_dest :: string

record label =
  key :: string
  label_name :: string
  dest :: path

definition load_label :: "path \<Rightarrow> raw_label \<Rightarrow> label" where
  "load_label sorted_root item =
     (let d = Path_of (raw_dest item);
          d' = (if \<not> is_absolute d then joinpath sorted_root d else d)
      in \<lparr>key = raw_key item, label_name = raw_name item, dest = d'\<rparr>)"

definition load_labels :: "raw_label list \<Rightarrow> path \<Rightarrow> label list" where
  "load_labels data sorted_root = map (load_label sorted_root) data"

text \<open>\<^verbatim>\<open>sorted_root = args.sorted_root or source_dir.parent / "sorted"\<close> in \<^verbatim>\<open>main\<close>.\<close>

definition main_sorted_root :: "path option \<Rightarrow> path \<Rightarrow> path" where
  "main_sorted_root arg source_dir =
     (case arg of Some r \<Rightarrow> r | None \<Rightarrow> joinpath (parent source_dir) (Path_of ''sorted''))"

subsection \<open>Decimal formatting\<close>

definition digit_char :: "nat \<Rightarrow> char" where
  "digit_char d = char_of (48 + d)"

text \<open>\<^verbatim>\<open>str(n)\<close> for a natural number.\<close>

function str_nat :: "nat \<Rightarrow> string" where
  "str_nat n = (if n < 10 then [digit_char n] else str_nat (n div 10) @ [digit_char (n mod 10)])"
  by pat_completeness auto
termination
  by (relation "measure id") auto

declare str_nat.simps [simp del]

text \<open>\<^verbatim>\<open>f"{counter:03d}"\<close>: at least three digits, padded with zeros on the left.\<close>

definition format_03d :: "nat \<Rightarrow> string" where
  "format_03d n = (let d = str_nat n in replicate (3 - length d) CHR ''0'' @ d)"

subsection \<open>The filesystem\<close>

text \<open>
  The filesystem maps each existing path to its node. Moving or copying takes the node at
  the source path alone (the program moves files, never directories). The set \<open>locked\<close>
  holds the paths that refuse a change: a locked file, held open by another process, can be
  read but not renamed or removed, and a locked directory takes no new entry. An operation
  that fails returns its error with the filesystem it leaves behind.
\<close>

datatype node = File string | Dir

type_synonym filesystem = "path \<rightharpoonup> node"

datatype error =
  PermissionError | FileNotFoundError | FileExistsError | NotADirectoryError
  | IsADirectoryError | ShutilError

definition path_exists :: "filesystem \<Rightarrow> path \<Rightarrow> bool" where
  "path_exists fs p = (fs p \<noteq> None)"

definition is_file :: "filesystem \<Rightarrow> path \<Rightarrow> bool" where
  "is_file fs p = (case fs p of Some (File c) \<Rightarrow> True | _ \<Rightarrow> False)"

definition is_dir :: "filesystem \<Rightarrow> path \<Rightarrow> bool" where
  "is_dir fs p = (fs p = Some Dir)"

text \<open>The entry of a directory, as \<^verbatim>\<open>iterdir\<close> and \<^verbatim>\<open>os.path.join\<close> build it.\<close>

definition make_child :: "path \<Rightarrow> string \<Rightarrow> path" where
  "make_child p n = PurePath (root p) (parts p @ [n])"

definition prefixes_of :: "path \<Rightarrow> path list" where
  "prefixes_of p = map (\<lambda>k. PurePath (root p) (take k (parts p))) [0..<Suc (length (parts p))]"

text \<open>\<^verbatim>\<open>p.mkdir(parents=True, exist_ok=True)\<close>.\<close>

definition mkdir_p :: "filesystem \<Rightarrow> path \<Rightarrow> error + filesystem" where
  "mkdir_p fs p =
     (if is_file fs p then Inl FileExistsError
      else if list_ex (is_file fs) (prefixes_of p) then Inl NotADirectoryError
      else Inr (\<lambda>q. if q \<in> set (prefixes_of p) \<and> fs q = None then Some Dir else fs q))"

text \<open>
  \<^verbatim>\<open>shutil.move(src, dst)\<close>: into \<open>dst\<close> when it is a directory, onto it otherwise. It
  tries \<^verbatim>\<open>os.rename\<close> and, when that is refused, copies the file and removes the source.
  With a locked destination directory the copy raises \<^verbatim>\<open>PermissionError\<close> and nothing
  is written; with a locked source the copy is made and the removal raises
  \<^verbatim>\<open>PermissionError\<close>, so the copy stays at the destination beside the source.
\<close>

definition shutil_move ::
  "filesystem \<Rightarrow> path set \<Rightarrow> path \<Rightarrow> path \<Rightarrow> (error \<times> filesystem) + filesystem" where
  "shutil_move fs lck src dst =
     (let real_dst = (if is_dir fs dst then make_child dst (name src) else dst) in
      if is_dir fs dst \<and> path_exists fs real_dst then Inl (ShutilError, fs)
      else if \<not> path_exists fs src then Inl (FileNotFoundError, fs)
      else if \<not> is_dir fs (parent real_dst) then Inl (FileNotFoundError, fs)
      else if parent real_dst \<in> lck then Inl (PermissionError, fs)
      else if src \<in> lck then Inl (PermissionError, fs(real_dst := fs src))
      else Inr ((fs(src := None))(real_dst := fs src)))"

text \<open>
  \<^verbatim>\<open>shutil.copy2(src, dst)\<close>: a locked destination directory raises
  \<^verbatim>\<open>PermissionError\<close> and nothing is written.
\<close>

definition copy2 ::
  "filesystem \<Rightarrow> path set \<Rightarrow> path \<Rightarrow> path \<Rightarrow> (error \<times> filesystem) + filesystem" where
  "copy2 fs lck src dst =
     (let real_dst = (if is_dir fs dst then make_child dst (name src) else dst) in
      if \<not> path_exists fs src then Inl (FileNotFoundError, fs)
      else if is_dir fs src then Inl (IsADirectoryError, fs)
      else if is_dir fs real_dst then Inl (IsADirectoryError, fs)
      else if \<not> is_dir fs (parent real_dst) then Inl (FileNotFoundError, fs)
      else if parent real_dst \<in> lck then Inl (PermissionError, fs)
      else Inr (fs(real_dst := fs src)))"

subsection \<open>Collision-safe names\<close>

text \<open>
  The loop of \<^verbatim>\<open>ensure_unique_path\<close> has no bound; \<open>None\<close> stands for a loop that never
  returns.
\<close>

partial_function (option) unique_loop ::
  "filesystem \<Rightarrow> path \<Rightarrow> string \<Rightarrow> string \<Rightarrow> nat \<Rightarrow> path option" where
  "unique_loop fs par st suf counter =
     (let candidate = joinpath par (Path_of (st @ ''__'' @ format_03d counter @ suf)) in
      if \<not> path_exists fs candidate then Some candidate
      else unique_loop fs par st suf (counter + 1))"

declare unique_loop.simps [code]

definition ensure_unique_path :: "filesystem \<Rightarrow> path \<Rightarrow> path option" where
  "ensure_unique_path fs dest_path =
     (if \<not> path_exists fs dest_path then Some dest_path
      else unique_loop fs (parent dest_path) (stem dest_path) (suffix dest_path) 1)"

subsection \<open>The log\<close>

text \<open>
  The log file is the list of its CSV rows, \<open>None\<close> when the file does not exist; a blank
  line is the empty row.
\<close>

type_synonym row = "string list"

type_synonym logfile = "row list option"

definition log_header :: row where
  "log_header = [''timestamp'', ''key'', ''label'', ''original_path'', ''dest_path'', ''action'']"

text \<open>\<^verbatim>\<open>dict(zip(fieldnames, row)).get(k)\<close>: of two columns of one name the later wins.\<close>

definition dict_get :: "row \<Rightarrow> row \<Rightarrow> string \<Rightarrow> string option" where
  "dict_get fieldnames r k = map_of (rev (zip fieldnames r)) k"

definition logged_path :: "row \<Rightarrow> row \<Rightarrow> path option" where
  "logged_path fieldnames r =
     (case dict_get fieldnames r ''original_path'' of
        None \<Rightarrow> None
      | Some s \<Rightarrow> if s \<noteq> '''' then Some (Path_of s) else None)"

text \<open>\<^verbatim>\<open>csv.DictReader\<close> takes the first row as the field names and skips blank rows.\<close>

definition read_logged_paths :: "logfile \<Rightarrow> path set" where
  "read_logged_paths lg =
     (case lg of
        None \<Rightarrow> {}
      | Some [] \<Rightarrow> {}
      | Some (fieldnames # rows) \<Rightarrow>
          set (List.map_filter (logged_path fieldnames) (filter (\<lambda>r. r \<noteq> []) rows)))"

definition ensure_log_header :: "logfile \<Rightarrow> logfile" where
  "ensure_log_header lg = (case lg of Some rows \<Rightarrow> Some rows | None \<Rightarrow> Some [log_header])"

definition append_row :: "logfile \<Rightarrow> row \<Rightarrow> logfile" where
  "append_row lg r = (case lg of None \<Rightarrow> Some [r] | Some rows \<Rightarrow> Some (rows @ [r]))"

definition remove_last_row :: "logfile \<Rightarrow> logfile" where
  "remove_last_row lg =
     (case lg of
        None \<Rightarrow> None
      | Some rows \<Rightarrow> if length rows \<le> 1 then Some rows else Some (butlast rows))"

subsection \<open>Queue construction\<close>

text \<open>
  \<open>listing\<close> is the list of entry names of the source directory, in the order the
  operating system returns them.
\<close>

definition build_queue :: "filesystem \<Rightarrow> logfile \<Rightarrow> path \<Rightarrow> string list \<Rightarrow> path list" where
  "build_queue fs lg source_dir listing =
     (let logged = read_logged_paths lg in
      filter (\<lambda>p. is_file fs p \<and> lower (suffix p) \<in> SUPPORTED_EXTENSIONS \<and> p \<notin> logged)
        (sort_key path_key (map (make_child source_dir) listing)))"

subsection \<open>The labeler's state\<close>

text \<open>
  The fields of \<^verbatim>\<open>VideoLabeler\<close> that the operations read or write, with the filesystem
  and the log file they act on. Of the media player the state keeps the source, the
  playing flag and the playback rate; \<open>warnings\<close> collects the titles of the message
  boxes shown.
\<close>

record config =
  source_dir :: path
  labels :: "label list"
  move_mode :: string

record state =
  fs :: filesystem
  locked :: "path set"
  log_file :: logfile
  queue :: "path list"
  current_path :: "path option"
  undo_stack :: "(path \<times> path) list"
  speed_index :: int
  playback_rate :: real
  player_source :: "path option"
  playing :: bool
  status_label :: string
  progress_label :: string
  play_pause_btn :: string
  seek_value :: int
  time_label :: string
  duration_ms :: int
  scrubbing :: bool
  warnings :: "string list"

text \<open>
  A slot either returns, or ends with an exception; the state it leaves is kept in both
  cases, since the event loop goes on after an exception in a slot.
\<close>

datatype outcome = Returned state | Raised error state

fun state_of :: "outcome \<Rightarrow> state" where
  "state_of (Returned s) = s"
| "state_of (Raised e s) = s"

definition speed_steps :: "real list" where
  "speed_steps = [0.5, 1.0, 1.5, 2.0, 4.0, 6.0, 8.0, 10.0]"

definition release_media :: "state \<Rightarrow> state" where
  "release_media s =
     s\<lparr>playing := False, player_source := None, play_pause_btn := ''Play'', seek_value := 0,
       time_label := ''00:00 / 00:00'', duration_ms := 0, scrubbing := False\<rparr>"

definition log_action :: "string \<Rightarrow> string \<Rightarrow> string \<Rightarrow> path \<Rightarrow> path \<Rightarrow> string \<Rightarrow> state \<Rightarrow> state" where
  "log_action ts k lbl original dst action s =
     s\<lparr>log_file := append_row (log_file s) [ts, k, lbl, str_of original, str_of dst, action]\<rparr>"

definition load_next :: "state \<Rightarrow> state" where
  "load_next s =
     (case queue s of
        [] \<Rightarrow> s\<lparr>current_path := None, status_label := ''All videos labeled.'',
                progress_label := '''', playing := False\<rparr>
      | p # rest \<Rightarrow>
          s\<lparr>current_path := Some p, queue := rest, status_label := ''Loaded: '' @ name p,
            progress_label := str_nat (length rest) @ '' remaining'',
            player_source := Some p, playing := True, play_pause_btn := ''Pause''\<rparr>)"

definition cycle_speed :: "state \<Rightarrow> state" where
  "cycle_speed s =
     (let i = (speed_index s + 1) mod int (length speed_steps) in
      s\<lparr>speed_index := i, playback_rate := speed_steps ! nat i\<rparr>)"

text \<open>\<open>ts\<close> is the timestamp the clock gives when the row is written.\<close>

definition skip_current :: "string \<Rightarrow> state \<Rightarrow> state" where
  "skip_current ts s =
     (case current_path s of
        None \<Rightarrow> s
      | Some cur \<Rightarrow> load_next (log_action ts '''' ''skip'' cur cur ''skip'' (release_media s)))"

text \<open>The body of the \<^verbatim>\<open>try\<close> block of \<^verbatim>\<open>label_current\<close>.\<close>

definition place_file ::
  "string \<Rightarrow> filesystem \<Rightarrow> path set \<Rightarrow> path \<Rightarrow> path \<Rightarrow> (error \<times> filesystem) + filesystem" where
  "place_file mode f lck src target =
     (if mode = ''copy'' then copy2 f lck src target else shutil_move f lck src target)"

definition label_current :: "config \<Rightarrow> string \<Rightarrow> label \<Rightarrow> state \<Rightarrow> outcome option" where
  "label_current cfg ts lbl s =
     (case current_path s of
        None \<Rightarrow> Some (Returned s)
      | Some cur \<Rightarrow>
          (let s1 = release_media s in
           case mkdir_p (fs s1) (dest lbl) of
             Inl e \<Rightarrow> Some (Raised e s1)
           | Inr f1 \<Rightarrow>
               (let s2 = s1\<lparr>fs := f1\<rparr> in
                case ensure_unique_path f1 (joinpath (dest lbl) (Path_of (name cur))) of
                  None \<Rightarrow> None
                | Some target \<Rightarrow>
                    (case place_file (move_mode cfg) f1 (locked s2) cur target of
                       Inl (e, f2) \<Rightarrow>
                         if e = PermissionError
                         then Some (Returned
                                (s2\<lparr>fs := f2, warnings := warnings s2 @ [''Move failed''],
                                    player_source := Some cur, playing := True,
                                    play_pause_btn := ''Pause''\<rparr>))
                         else Some (Raised e (s2\<lparr>fs := f2\<rparr>))
                     | Inr f2 \<Rightarrow>
                         Some (Returned
                           (load_next
                              (log_action ts (key lbl) (label_name lbl) cur target (move_mode cfg)
                                 (s2\<lparr>fs := f2, undo_stack := undo_stack s2 @ [(cur, target)]\<rparr>))))))))"

definition undo_last :: "state \<Rightarrow> outcome" where
  "undo_last s =
     (if undo_stack s = [] then Returned (s\<lparr>status_label := ''Nothing to undo.''\<rparr>)
      else
        (let s1 = release_media s;
             original = fst (last (undo_stack s1));
             dst = snd (last (undo_stack s1));
             s2 = s1\<lparr>undo_stack := butlast (undo_stack s1)\<rparr>;
             moved =
               (if path_exists (fs s2) dst
                then (case mkdir_p (fs s2) (parent dst) of
                        Inl e \<Rightarrow> Inl (e, s2)
                      | Inr f1 \<Rightarrow>
                          (case shutil_move f1 (locked s2) dst original of
                             Inl (e, f2) \<Rightarrow> Inl (e, s2\<lparr>fs := f2\<rparr>)
                           | Inr f2 \<Rightarrow> Inr (s2\<lparr>fs := f2\<rparr>)))
                else Inr s2)
         in case moved of
              Inl (e, s3) \<Rightarrow> Raised e s3
            | Inr s3 \<Rightarrow>
                (let s4 = s3\<lparr>log_file := remove_last_row (log_file s3), queue := original # queue s3\<rparr> in
                 Returned
                   (s4\<lparr>status_label := ''Undid: '' @ name original,
                       progress_label := str_nat (length (queue s4)) @ '' remaining'',
                       player_source := Some original, playing := True\<rparr>))))"

definition handle_invalid_media :: "state \<Rightarrow> state" where
  "handle_invalid_media s = load_next (s\<lparr>warnings := warnings s @ [''Playback error'']\<rparr>)"

text \<open>
  \<^verbatim>\<open>VideoLabeler.__init__\<close> on a filesystem, a log file and the listing of the source
  directory: the queue is built from the log as it is found, then the header is written
  when the file is absent, then the first item is loaded.
\<close>

definition init_state :: "config \<Rightarrow> filesystem \<Rightarrow> path set \<Rightarrow> logfile \<Rightarrow> string list \<Rightarrow> state" where
  "init_state cfg f lck lg listing =
     load_next
       \<lparr>fs = f, locked = lck, log_file = ensure_log_header lg,
        queue = build_queue f lg (source_dir cfg) listing, current_path = None,
        undo_stack = [], speed_index = 1, playback_rate = 1, player_source = None,
        playing = False, status_label = ''Ready'', progress_label = '''',
        play_pause_btn = ''Pause'', seek_value = 0, time_label = ''00:00 / 00:00'',
        duration_ms = 0, scrubbing = False, warnings = []\<rparr>"

subsection \<open>Events\<close>

datatype event =
  LabelKey label string | SkipKey string | UndoKey | SpeedClicked | InvalidMedia

fun step :: "config \<Rightarrow> event \<Rightarrow> state \<Rightarrow> state option" where
  "step cfg (LabelKey lbl ts) s = map_option state_of (label_current cfg ts lbl s)"
| "step cfg (SkipKey ts) s = Some (skip_current ts s)"
| "step cfg UndoKey s = Some (state_of (undo_last s))"
| "step cfg SpeedClicked s = Some (cycle_speed s)"
| "step cfg InvalidMedia s = Some (handle_invalid_media s)"

fun run :: "config \<Rightarrow> event list \<Rightarrow> state \<Rightarrow> state option" where
  "run cfg [] s = Some s"
| "run cfg (ev # evs) s = (case step cfg ev s of None \<Rightarrow> None | Some s' \<Rightarrow> run cfg evs s')"

subsection \<open>Vocabulary of the properties\<close>

text \<open>The index is in range and the player runs at the rate the index selects.\<close>

definition speed_ok :: "state \<Rightarrow> bool" where
  "speed_ok s =
     (0 \<le> speed_index s \<and> speed_index s < 8 \<and>
      playback_rate s = speed_steps ! nat (speed_index s))"

text \<open>
  What every \<^verbatim>\<open>pathlib\<close> path satisfies: one of the three roots, and components that are
  not empty, not \<^verbatim>\<open>'.'\<close> and free of the separator.
\<close>

definition part_ok :: "string \<Rightarrow> bool" where
  "part_ok x = (x \<noteq> '''' \<and> x \<noteq> ''.'' \<and> CHR ''/'' \<notin> set x)"

definition path_ok :: "path \<Rightarrow> bool" where
  "path_ok p = ((root p = '''' \<or> root p = ''/'' \<or> root p = ''//'') \<and> list_all part_ok (parts p))"

text \<open>The candidate that the loop of \<^verbatim>\<open>ensure_unique_path\<close> tries at a counter.\<close>

definition candidate :: "path \<Rightarrow> nat \<Rightarrow> path" where
  "candidate dest_path k =
     joinpath (parent dest_path)
       (Path_of (stem dest_path @ ''__'' @ format_03d k @ suffix dest_path))"

text \<open>
  The strings in the column that the header row names \<^verbatim>\<open>original_path\<close>, over the rows
  after the header.
\<close>

definition original_path_values :: "logfile \<Rightarrow> string set" where
  "original_path_values lg =
     (case lg of
        None \<Rightarrow> {}
      | Some [] \<Rightarrow> {}
      | Some (h # rows) \<Rightarrow> set (List.map_filter (\<lambda>r. dict_get h r ''original_path'') rows))"

text \<open>An existing log file begins with the header row.\<close>

definition begins_with_header :: "logfile \<Rightarrow> bool" where
  "begins_with_header lg =
     (case lg of None \<Rightarrow> True | Some rows \<Rightarrow> rows \<noteq> [] \<and> hd rows = log_header)"

subsection \<open>A small installation\<close>

text \<open>
  The directory \<^verbatim>\<open>videos\<close> holds \<^verbatim>\<open>a.mp4\<close> and \<^verbatim>\<open>b.mp4\<close>; the label \<^verbatim>\<open>1\<close> sends a file to
  \<^verbatim>\<open>sorted/keep\<close>.
\<close>

definition ex_a :: path where
  "ex_a = PurePath '''' [''videos'', ''a.mp4'']"

definition ex_b :: path where
  "ex_b = PurePath '''' [''videos'', ''b.mp4'']"

definition ex_keep :: label where
  "ex_keep = \<lparr>key = ''1'', label_name = ''keep'', dest = PurePath '''' [''sorted'', ''keep'']\<rparr>"

definition ex_cfg :: config where
  "ex_cfg = \<lparr>source_dir = PurePath '''' [''videos''], labels = [ex_keep], move_mode = ''move''\<rparr>"

definition ex_fs :: filesystem where
  "ex_fs =
     [PurePath '''' [] \<mapsto> Dir, PurePath '''' [''videos''] \<mapsto> Dir,
      ex_a \<mapsto> File ''A'', ex_b \<mapsto> File ''B'']"

definition ex_ts :: string where
  "ex_ts = ''2024-01-01T00:00:00''"

text \<open>The state after start-up, with no log file yet.\<close>

definition ex_start :: state where
  "ex_start = init_state ex_cfg ex_fs {} None [''b.mp4'', ''a.mp4'']"

definition ex_target :: path where
  "ex_target = PurePath '''' [''sorted'', ''keep'', ''a.mp4'']"

text \<open>The same start with \<^verbatim>\<open>a.mp4\<close> held open by another process.\<close>

definition ex_locked_start :: state where
  "ex_locked_start = init_state ex_cfg ex_fs {ex_a} None [''b.mp4'', ''a.mp4'']"

text \<open>The same start with a log file that exists and is empty.\<close>

definition ex_empty_log_start :: state where
  "ex_empty_log_start = init_state ex_cfg ex_fs {} (Some []) [''b.mp4'', ''a.mp4'']"

text \<open>The same start with a log file that holds the header row and nothing else.\<close>

definition ex_header_start :: state where
  "ex_header_start = init_state ex_cfg ex_fs {} (Some [log_header]) [''b.mp4'', ''a.mp4'']"

text \<open>The same installation in copy mode.\<close>

definition ex_copy_cfg :: config where
  "ex_copy_cfg = ex_cfg\<lparr>move_mode := ''copy''\<rparr>"

text \<open>An empty source directory, after start-up and one press of the undo key.\<close>

definition ex_idle :: state where
  "ex_idle =
     state_of (undo_last
       (init_state ex_cfg [PurePath '''' [] \<mapsto> Dir, PurePath '''' [''videos''] \<mapsto> Dir]
          {} None []))"


section \<open>Properties\<close>

subsection \<open>Speed selector\<close>

lemma length_speed_steps: "length speed_steps = 8"
  by (simp add: speed_steps_def)

lemma speed_index_cycle: "speed_index (cycle_speed s) = (speed_index s + 1) mod 8"
  by (simp add: cycle_speed_def length_speed_steps Let_def)

lemma playback_rate_cycle:
  "playback_rate (cycle_speed s) = speed_steps ! nat ((speed_index s + 1) mod 8)"
  by (simp add: cycle_speed_def length_speed_steps Let_def)

lemma speed_ok_cycle: "speed_ok (cycle_speed s)"
  by (simp add: speed_ok_def speed_index_cycle playback_rate_cycle)

lemma speed_index_funpow:
  "speed_index ((cycle_speed ^^ n) s) =
     (if n = 0 then speed_index s else (speed_index s + int n) mod 8)"
proof (induction n)
  case 0
  then show ?case by simp
next
  case (Suc n)
  show ?case
  proof (cases "n = 0")
    case True
    then show ?thesis by (simp add: speed_index_cycle)
  next
    case False
    have "(((speed_index s + int n) mod 8) + 1) mod 8 = (speed_index s + int n + 1) mod 8"
      by (simp add: mod_add_left_eq)
    with False Suc show ?thesis by (simp add: speed_index_cycle ac_simps)
  qed
qed

lemma speed_ok_funpow: "speed_ok s \<Longrightarrow> speed_ok ((cycle_speed ^^ n) s)"
  by (cases n) (simp_all add: speed_ok_cycle)

lemma speed_ok_rate_mem: "speed_ok s \<Longrightarrow> playback_rate s \<in> set speed_steps"
  by (auto simp: speed_ok_def length_speed_steps intro!: nth_mem)

lemma eight_cycles:
  assumes ok: "speed_ok s"
  shows "playback_rate ((cycle_speed ^^ 8) s) = playback_rate s"
proof -
  have i: "speed_index ((cycle_speed ^^ 8) s) = speed_index s"
    using ok by (simp add: speed_index_funpow speed_ok_def)
  have "speed_ok ((cycle_speed ^^ 8) s)"
    using ok by (rule speed_ok_funpow)
  then have "playback_rate ((cycle_speed ^^ 8) s) =
      speed_steps ! nat (speed_index ((cycle_speed ^^ 8) s))"
    by (simp add: speed_ok_def)
  with i ok show ?thesis by (simp add: speed_ok_def)
qed

subsection \<open>What each operation leaves alone\<close>

lemma load_next_keeps:
  "fs (load_next s) = fs s" "locked (load_next s) = locked s" "log_file (load_next s) = log_file s"
  "undo_stack (load_next s) = undo_stack s" "speed_index (load_next s) = speed_index s"
  "playback_rate (load_next s) = playback_rate s" "warnings (load_next s) = warnings s"
  by (simp_all add: load_next_def split: list.splits)

lemma release_media_keeps:
  "fs (release_media s) = fs s" "locked (release_media s) = locked s"
  "log_file (release_media s) = log_file s" "queue (release_media s) = queue s"
  "current_path (release_media s) = current_path s" "undo_stack (release_media s) = undo_stack s"
  "speed_index (release_media s) = speed_index s" "playback_rate (release_media s) = playback_rate s"
  "status_label (release_media s) = status_label s" "warnings (release_media s) = warnings s"
  by (simp_all add: release_media_def)

lemma log_action_keeps:
  "fs (log_action ts k l a b c s) = fs s" "locked (log_action ts k l a b c s) = locked s"
  "queue (log_action ts k l a b c s) = queue s"
  "current_path (log_action ts k l a b c s) = current_path s"
  "undo_stack (log_action ts k l a b c s) = undo_stack s"
  "speed_index (log_action ts k l a b c s) = speed_index s"
  "playback_rate (log_action ts k l a b c s) = playback_rate s"
  "log_file (log_action ts k l a b c s) = append_row (log_file s) [ts, k, l, str_of a, str_of b, c]"
  by (simp_all add: log_action_def)

lemma label_current_speed:
  "label_current cfg ts lbl s = Some out \<Longrightarrow>
   speed_index (state_of out) = speed_index s \<and> playback_rate (state_of out) = playback_rate s"
  by (auto simp: label_current_def Let_def load_next_keeps release_media_keeps log_action_keeps
      split: option.splits sum.splits if_splits)

lemma undo_last_speed:
  "speed_index (state_of (undo_last s)) = speed_index s \<and>
   playback_rate (state_of (undo_last s)) = playback_rate s"
  by (simp add: undo_last_def Let_def release_media_keeps split: sum.splits prod.splits)

lemma skip_current_speed:
  "speed_index (skip_current ts s) = speed_index s \<and>
   playback_rate (skip_current ts s) = playback_rate s"
  by (simp add: skip_current_def load_next_keeps release_media_keeps log_action_keeps
      split: option.splits)

lemma step_speed:
  assumes "step cfg ev s = Some s'"
  shows "speed_ok s' = (if ev = SpeedClicked then True else speed_ok s)"
proof (cases ev)
  case (LabelKey lbl ts)
  with assms obtain out where "label_current cfg ts lbl s = Some out" "s' = state_of out"
    by auto
  with label_current_speed [of cfg ts lbl s out] LabelKey show ?thesis
    by (simp add: speed_ok_def)
next
  case (SkipKey ts)
  with assms skip_current_speed [of ts s] show ?thesis
    by (auto simp: speed_ok_def)
next
  case UndoKey
  with assms undo_last_speed [of s] show ?thesis
    by (auto simp: speed_ok_def)
next
  case SpeedClicked
  with assms show ?thesis by (auto simp: speed_ok_cycle)
next
  case InvalidMedia
  with assms show ?thesis
    by (auto simp: handle_invalid_media_def load_next_keeps speed_ok_def)
qed

lemma run_speed_ok: "speed_ok s \<Longrightarrow> run cfg evs s = Some s' \<Longrightarrow> speed_ok s'"
proof (induction evs arbitrary: s)
  case Nil
  then show ?case by simp
next
  case (Cons ev evs)
  from Cons.prems obtain s1 where s1: "step cfg ev s = Some s1" "run cfg evs s1 = Some s'"
    by (auto split: option.splits)
  from step_speed [OF s1(1)] Cons.prems(1) have "speed_ok s1"
    by (simp split: if_splits)
  with s1(2) Cons.IH show ?case by blast
qed

lemma speed_ok_init: "speed_ok (init_state cfg f lck lg listing)"
  by (simp add: init_state_def speed_ok_def load_next_keeps speed_steps_def)


text \<open>
  Claim C9. The speed control steps through the fixed list of rates 0.5, 1, 1.5, 2, 4, 6, 8,
  10: the program starts at the rate its index selects; from such a state one click
  selects the next rate of the list, the first one after the last; eight clicks give the
  rate back; and whatever events follow, the rate is an element of the list.
\<close>

theorem cycle_speed_cyclic:
  "speed_steps = [0.5, 1.0, 1.5, 2.0, 4.0, 6.0, 8.0, 10.0] \<and>
   speed_ok (init_state cfg f lck lg listing) \<and>
   (speed_ok s \<longrightarrow>
      speed_ok (cycle_speed s) \<and>
      playback_rate (cycle_speed s) = speed_steps ! ((nat (speed_index s) + 1) mod 8) \<and>
      playback_rate ((cycle_speed ^^ 8) s) = playback_rate s \<and>
      playback_rate s \<in> set speed_steps \<and>
      (\<forall>evs s'. run cfg evs s = Some s' \<longrightarrow> playback_rate s' \<in> set speed_steps))"
proof (intro conjI impI allI)
  show "speed_steps = [0.5, 1.0, 1.5, 2.0, 4.0, 6.0, 8.0, 10.0]"
    by (simp add: speed_steps_def)
  show "speed_ok (init_state cfg f lck lg listing)"
    by (rule speed_ok_init)
next
  assume ok: "speed_ok s"
  show "speed_ok (cycle_speed s)"
    by (rule speed_ok_cycle)
  have "nat ((speed_index s + 1) mod 8) = (nat (speed_index s) + 1) mod 8"
    using ok by (simp add: speed_ok_def nat_mod_distrib nat_add_distrib)
  then show "playback_rate (cycle_speed s) = speed_steps ! ((nat (speed_index s) + 1) mod 8)"
    by (simp add: playback_rate_cycle)
  show "playback_rate ((cycle_speed ^^ 8) s) = playback_rate s"
    using ok by (rule eight_cycles)
  show "playback_rate s \<in> set speed_steps"
    using ok by (rule speed_ok_rate_mem)
  fix evs s'
  assume "run cfg evs s = Some s'"
  with ok have "speed_ok s'" by (rule run_speed_ok)
  then show "playback_rate s' \<in> set speed_steps"
    by (rule speed_ok_rate_mem)
qed

text \<open>The start state of the small installation: index 1, rate 1, next rate 1.5.\<close>

lemma ex_start_speed: "speed_index ex_start = 1" "playback_rate ex_start = 1"
  by (simp_all add: ex_start_def init_state_def load_next_keeps)

theorem cycle_speed_cyclic_witness:
  "speed_ok ex_start \<and> playback_rate (cycle_speed ex_start) = 1.5
   \<and> playback_rate ((cycle_speed ^^ 8) ex_start) = 1"
proof -
  note inst = cycle_speed_cyclic [where s = ex_start and cfg = ex_cfg and f = ex_fs
      and lck = "{}" and lg = None and listing = "[''b.mp4'', ''a.mp4'']"]
  have ok: "speed_ok ex_start"
    using inst by (simp only: ex_start_def)
  from ok inst
  have "playback_rate (cycle_speed ex_start) = speed_steps ! ((nat (speed_index ex_start) + 1) mod 8)"
    and "playback_rate ((cycle_speed ^^ 8) ex_start) = playback_rate ex_start"
    by blast+
  with ok show ?thesis by (simp add: speed_steps_def ex_start_speed)
qed

subsection \<open>The default sorted root\<close>

text \<open>
  Claim C7. With no \<^verbatim>\<open>--sorted-root\<close> the claim resolves a relative destination against
  the parent of the source directory. The program resolves it against the directory
  \<^verbatim>\<open>sorted\<close> inside that parent: with the source \<^verbatim>\<open>/data/videos\<close> the destination
  \<^verbatim>\<open>keep\<close> becomes \<^verbatim>\<open>/data/sorted/keep\<close>, not \<^verbatim>\<open>/data/keep\<close>.
\<close>

theorem sorted_root_default_is_sibling:
  "map dest (load_labels [\<lparr>raw_key = ''1'', raw_name = ''keep'', raw_dest = ''keep''\<rparr>]
      (main_sorted_root None (Path_of ''/data/videos''))) = [Path_of ''/data/sorted/keep'']
   \<and> Path_of ''/data/sorted/keep'' \<noteq> joinpath (parent (Path_of ''/data/videos'')) (Path_of ''keep'')"
  by (simp add: load_labels_def load_label_def main_sorted_root_def Path_of_def parse_root_def joinpath_def is_absolute_def parent_def)

subsection \<open>Undo after a classification\<close>

text \<open>
  Claim C1. Classifying the current item and undoing at once should give back the state
  before the classification, the item current again. On the small installation
  \<^verbatim>\<open>a.mp4\<close> is current and \<^verbatim>\<open>b.mp4\<close> waits in the queue; after the label key and
  the undo key the player shows \<^verbatim>\<open>a.mp4\<close>, but \<^verbatim>\<open>current_path\<close> is still
  \<^verbatim>\<open>b.mp4\<close> and the queue holds \<^verbatim>\<open>a.mp4\<close>: \<^verbatim>\<open>undo_last\<close> never resets
  \<^verbatim>\<open>current_path\<close>, so the next label key files \<^verbatim>\<open>b.mp4\<close> while \<^verbatim>\<open>a.mp4\<close>
  is on screen.
\<close>

theorem undo_leaves_next_item_current:
  "current_path ex_start = Some ex_a \<and> queue ex_start = [ex_b] \<and>
   map_option
     (\<lambda>out. let s2 = state_of (undo_last (state_of out))
            in (current_path s2, queue s2, player_source s2))
     (label_current ex_cfg ex_ts ex_keep ex_start) =
   Some (Some ex_b, [ex_a], Some ex_a)"
  by code_simp

subsection \<open>Actions without their precondition\<close>

text \<open>
  Claim C8, as the code has it. Undo on an empty undo stack changes nothing but the status
  line, which reads \<^verbatim>\<open>Nothing to undo.\<close>; skip and classify with no current item return
  at once and change nothing at all, the status line included. None of them raises.
\<close>

theorem missing_precondition_noop:
  "(undo_stack s = [] \<longrightarrow> undo_last s = Returned (s\<lparr>status_label := ''Nothing to undo.''\<rparr>)) \<and>
   (current_path s = None \<longrightarrow>
      skip_current ts s = s \<and> label_current cfg ts lbl s = Some (Returned s))"
  by (simp add: undo_last_def skip_current_def label_current_def)

lemma ex_idle_fields:
  "undo_stack ex_idle = []" "current_path ex_idle = None"
  "status_label ex_idle = ''Nothing to undo.''"
  by code_simp+

theorem missing_precondition_noop_witness:
  "undo_stack ex_idle = [] \<and> current_path ex_idle = None \<and>
   undo_last ex_idle = Returned (ex_idle\<lparr>status_label := ''Nothing to undo.''\<rparr>) \<and>
   skip_current ex_ts ex_idle = ex_idle \<and>
   label_current ex_cfg ex_ts ex_keep ex_idle = Some (Returned ex_idle)"
  using missing_precondition_noop [of ex_idle ex_ts ex_cfg ex_keep] ex_idle_fields by simp

text \<open>
  The claim as stated gives the ignored skip and the ignored classification a status
  message. With an empty source directory and the undo key pressed once, the status line
  reads \<^verbatim>\<open>Nothing to undo.\<close>; after the skip key, and after a label key, it still reads
  so: neither wrote a message.
\<close>

theorem ignored_skip_writes_no_status:
  "current_path ex_idle = None \<and> status_label ex_idle = ''Nothing to undo.'' \<and>
   status_label (skip_current ex_ts ex_idle) = ''Nothing to undo.'' \<and>
   map_option (\<lambda>out. status_label (state_of out)) (label_current ex_cfg ex_ts ex_keep ex_idle) =
     Some ''Nothing to undo.''"
  by code_simp

subsection \<open>The collision-safe name is unused\<close>

lemma unique_loop_fresh:
  assumes "unique_loop f par st suf counter = Some t"
  shows "\<not> path_exists f t"
proof (rule unique_loop.raw_induct
    [where P = "\<lambda>f par st suf counter t. \<not> path_exists f t", OF _ assms])
  fix loop f' par' st' suf' counter' t'
  assume IH: "\<And>f par st suf counter y. loop f par st suf counter = Some y \<Longrightarrow> \<not> path_exists f y"
    and step: "(let candidate = joinpath par' (Path_of (st' @ ''__'' @ format_03d counter' @ suf'))
                in if \<not> path_exists f' candidate then Some candidate
                   else loop f' par' st' suf' (counter' + 1)) = Some t'"
  show "\<not> path_exists f' t'"
    using IH step by (auto simp: Let_def split: if_splits)
qed

lemma ensure_unique_path_fresh:
  "ensure_unique_path f p = Some t \<Longrightarrow> \<not> path_exists f t"
  by (auto simp: ensure_unique_path_def split: if_splits dest: unique_loop_fresh)

subsection \<open>The header row of the log\<close>

lemma append_row_header: "append_row (Some (h # rows)) r = Some (h # rows @ [r])"
  by (simp add: append_row_def)

lemma remove_last_row_header: "remove_last_row (Some (h # rows)) = Some (h # butlast rows)"
  by (simp add: remove_last_row_def)

lemma label_current_log:
  "label_current cfg ts lbl s = Some out \<Longrightarrow>
   log_file (state_of out) = log_file s \<or> (\<exists>r. log_file (state_of out) = append_row (log_file s) r)"
  by (auto simp: label_current_def Let_def load_next_keeps release_media_keeps log_action_keeps
      split: option.splits sum.splits if_splits)

lemma undo_last_log:
  "log_file (state_of (undo_last s)) = log_file s \<or>
   log_file (state_of (undo_last s)) = remove_last_row (log_file s)"
  by (simp add: undo_last_def Let_def release_media_keeps split: sum.splits prod.splits)

lemma skip_current_log:
  "log_file (skip_current ts s) = log_file s \<or>
   (\<exists>r. log_file (skip_current ts s) = append_row (log_file s) r)"
  by (auto simp: skip_current_def load_next_keeps release_media_keeps log_action_keeps
      split: option.splits)

lemma step_log:
  assumes "step cfg ev s = Some s'"
  shows "log_file s' = log_file s \<or> (\<exists>r. log_file s' = append_row (log_file s) r) \<or>
         log_file s' = remove_last_row (log_file s)"
proof (cases ev)
  case (LabelKey lbl ts)
  with assms obtain out where "label_current cfg ts lbl s = Some out" "s' = state_of out"
    by auto
  with label_current_log [of cfg ts lbl s out] show ?thesis by blast
next
  case (SkipKey ts)
  with assms skip_current_log [of ts s] show ?thesis by auto
next
  case UndoKey
  with assms undo_last_log [of s] show ?thesis by auto
next
  case SpeedClicked
  with assms show ?thesis by (auto simp: cycle_speed_def Let_def)
next
  case InvalidMedia
  with assms show ?thesis by (auto simp: handle_invalid_media_def load_next_keeps)
qed

lemma step_header:
  assumes "step cfg ev s = Some s'" and "log_file s = Some (log_header # rows)"
  shows "\<exists>rows'. log_file s' = Some (log_header # rows')"
  using step_log [OF assms(1)] assms(2)
  by (auto simp: append_row_header remove_last_row_header)

lemma run_header:
  "run cfg evs s = Some s' \<Longrightarrow> log_file s = Some (log_header # rows) \<Longrightarrow>
   \<exists>rows'. log_file s' = Some (log_header # rows')"
proof (induction evs arbitrary: s rows)
  case Nil
  then show ?case by simp
next
  case (Cons ev evs)
  from Cons.prems obtain s1 where s1: "step cfg ev s = Some s1" "run cfg evs s1 = Some s'"
    by (auto split: option.splits)
  from step_header [OF s1(1) Cons.prems(2)] obtain rows1
    where "log_file s1 = Some (log_header # rows1)" by blast
  with s1(2) Cons.IH show ?case by blast
qed

lemma log_file_init: "log_file (init_state cfg f lck lg listing) = ensure_log_header lg"
  by (simp add: init_state_def load_next_keeps)

lemma ensure_log_header_begins:
  "begins_with_header lg \<Longrightarrow> \<exists>rows. ensure_log_header lg = Some (log_header # rows)"
  by (cases lg) (auto simp: begins_with_header_def ensure_log_header_def neq_Nil_conv)

lemma ex_header_facts:
  "(case run ex_cfg [LabelKey ex_keep ex_ts] ex_header_start of
      Some s1 \<Rightarrow>
        log_file s1 =
          Some [log_header, [ex_ts, ''1'', ''keep'', ''videos/a.mp4'', ''sorted/keep/a.mp4'', ''move'']] \<and>
        undo_stack s1 = [(ex_a, ex_target)]
    | None \<Rightarrow> False)"
  "(case run ex_cfg [LabelKey ex_keep ex_ts, UndoKey] ex_header_start of
      Some s' \<Rightarrow> log_file s' = Some [log_header] \<and> undo_stack s' = []
    | None \<Rightarrow> False)"
  by code_simp+

text \<open>
  Claim C10. Removing the last log row leaves a missing file, an empty file and a file of
  one row as they are, so the header row is never removed. The header is written when, and
  only when, the file is absent at start-up. Every event changes the log by appending one
  row at the end or by removing the last row, or not at all; so when the log file found at
  start-up is absent or begins with the header row, then after start-up and any sequence of
  events the log file exists and begins with the header row.
\<close>

theorem log_header_kept:
  "(lg = None \<or> (\<exists>rows. lg = Some rows \<and> length rows \<le> 1) \<longrightarrow> remove_last_row lg = lg) \<and>
   ensure_log_header None = Some [log_header] \<and>
   ensure_log_header (Some rows) = Some rows \<and>
   (begins_with_header lg \<longrightarrow> begins_with_header (remove_last_row lg)) \<and>
   (begins_with_header lg \<and> run cfg evs (init_state cfg f lck lg listing) = Some s' \<longrightarrow>
      log_file s' \<noteq> None \<and> begins_with_header (log_file s')) \<and>
   (step cfg ev s = Some s1 \<longrightarrow>
      log_file s1 = log_file s \<or> (\<exists>r. log_file s1 = append_row (log_file s) r) \<or>
      log_file s1 = remove_last_row (log_file s))"
proof (intro conjI impI)
  show "remove_last_row lg = lg" if "lg = None \<or> (\<exists>rows. lg = Some rows \<and> length rows \<le> 1)"
    using that by (auto simp: remove_last_row_def)
  show "ensure_log_header None = Some [log_header]"
    by (simp add: ensure_log_header_def)
  show "ensure_log_header (Some rows) = Some rows"
    by (simp add: ensure_log_header_def)
  show "begins_with_header (remove_last_row lg)" if "begins_with_header lg"
    using that
    by (cases lg) (auto simp: begins_with_header_def remove_last_row_def neq_Nil_conv)
next
  assume a: "begins_with_header lg \<and> run cfg evs (init_state cfg f lck lg listing) = Some s'"
  then obtain rows0 where "log_file (init_state cfg f lck lg listing) = Some (log_header # rows0)"
    using ensure_log_header_begins [of lg] by (auto simp: log_file_init)
  with a run_header obtain rows' where r: "log_file s' = Some (log_header # rows')"
    by blast
  show "log_file s' \<noteq> None" using r by simp
  show "begins_with_header (log_file s')" using r by (simp add: begins_with_header_def)
next
  assume "step cfg ev s = Some s1"
  then show "log_file s1 = log_file s \<or> (\<exists>r. log_file s1 = append_row (log_file s) r) \<or>
      log_file s1 = remove_last_row (log_file s)"
    by (rule step_log)
qed

theorem log_header_kept_witness:
  "begins_with_header (Some [log_header]) \<and>
   remove_last_row (Some [log_header]) = Some [log_header] \<and>
   (case run ex_cfg [LabelKey ex_keep ex_ts] ex_header_start of
      Some s1 \<Rightarrow>
        log_file s1 =
          Some [log_header, [ex_ts, ''1'', ''keep'', ''videos/a.mp4'', ''sorted/keep/a.mp4'', ''move'']] \<and>
        undo_stack s1 = [(ex_a, ex_target)] \<and>
        (case step ex_cfg UndoKey s1 of
           Some s2 \<Rightarrow>
             log_file s2 = remove_last_row (log_file s1) \<and> log_file s2 = Some [log_header] \<and>
             begins_with_header (log_file s2)
         | None \<Rightarrow> False)
    | None \<Rightarrow> False)"
proof -
  have b: "begins_with_header (Some [log_header])"
    by (simp add: begins_with_header_def)
  from ex_header_facts(1) obtain s1 where
    s1: "run ex_cfg [LabelKey ex_keep ex_ts] ex_header_start = Some s1"
      "log_file s1 =
         Some [log_header, [ex_ts, ''1'', ''keep'', ''videos/a.mp4'', ''sorted/keep/a.mp4'', ''move'']]"
      "undo_stack s1 = [(ex_a, ex_target)]"
    by (auto split: option.splits)
  from ex_header_facts(2) obtain s2 where
    s2: "run ex_cfg [LabelKey ex_keep ex_ts, UndoKey] ex_header_start = Some s2"
      "log_file s2 = Some [log_header]"
    by (auto split: option.splits)
  from s1(1) s2(1) have st: "step ex_cfg UndoKey s1 = Some s2"
    by (auto split: option.splits)
  note inst = log_header_kept [where lg = "Some [log_header]" and rows = "[log_header]"
      and cfg = ex_cfg and f = ex_fs and lck = "{}" and listing = "[''b.mp4'', ''a.mp4'']"
      and evs = "[LabelKey ex_keep ex_ts, UndoKey]" and s' = s2 and ev = UndoKey and s = s1
      and ?s1.0 = s2]
  from inst have r: "remove_last_row (Some [log_header]) = Some [log_header]"
    by simp
  from inst b s2(1) have h: "begins_with_header (log_file s2)"
    unfolding ex_header_start_def by blast
  have rm: "log_file s2 = remove_last_row (log_file s1)"
    using s1(2) s2(2) by (simp add: remove_last_row_def)
  show ?thesis
    using b r s1 st s2(2) h rm by simp
qed

subsection \<open>Classification: permission failure and mode\<close>

lemma place_file_failure:
  assumes "place_file mode f lck src dst = Inl (e, f2)" and "\<not> path_exists f dst"
  shows "(e \<noteq> PermissionError \<longrightarrow> f2 = f) \<and> (f2 = f \<or> f2 = f(dst := f src))"
  using assms
  by (auto simp: place_file_def copy2_def shutil_move_def Let_def is_dir_def path_exists_def
      split: if_splits)

text \<open>
  Claim C4. With a current item, when the move or copy raises \<^verbatim>\<open>PermissionError\<close> the
  slot returns after a warning: no log row is appended, the queue, the undo stack and the
  current item are as before, and the item is loaded in the player again and playing. It
  is the only error the slot recovers from: any other error of the move or copy, and any
  error of the creation of the destination directory, leaves the slot as an exception.
  The filesystem is the one the failed operation leaves behind: the one after the creation
  of the destination directory, with at most a copy of the item at the target (the move
  of a locked file copies it before the removal of the source is refused).
\<close>

theorem permission_failure_keeps_state:
  assumes cur: "current_path s = Some cur"
  shows
    "(\<forall>e. mkdir_p (fs s) (dest lbl) = Inl e \<longrightarrow>
        label_current cfg ts lbl s = Some (Raised e (release_media s))) \<and>
     (\<forall>f1 target e f2.
        mkdir_p (fs s) (dest lbl) = Inr f1 \<and>
        ensure_unique_path f1 (joinpath (dest lbl) (Path_of (name cur))) = Some target \<and>
        place_file (move_mode cfg) f1 (locked s) cur target = Inl (e, f2) \<longrightarrow>
        (f2 = f1 \<or> f2 = f1(target := f1 cur)) \<and>
        (if e = PermissionError
         then (\<exists>s'. label_current cfg ts lbl s = Some (Returned s') \<and>
                log_file s' = log_file s \<and> queue s' = queue s \<and>
                undo_stack s' = undo_stack s \<and> current_path s' = Some cur \<and>
                player_source s' = Some cur \<and> playing s' \<and>
                warnings s' = warnings s @ [''Move failed''] \<and> fs s' = f2)
         else label_current cfg ts lbl s = Some (Raised e ((release_media s)\<lparr>fs := f1\<rparr>))))"
proof (intro conjI allI impI)
  fix e
  assume "mkdir_p (fs s) (dest lbl) = Inl e"
  with cur show "label_current cfg ts lbl s = Some (Raised e (release_media s))"
    by (simp add: label_current_def Let_def release_media_keeps)
next
  fix f1 target e f2
  assume a: "mkdir_p (fs s) (dest lbl) = Inr f1 \<and>
        ensure_unique_path f1 (joinpath (dest lbl) (Path_of (name cur))) = Some target \<and>
        place_file (move_mode cfg) f1 (locked s) cur target = Inl (e, f2)"
  then have fresh: "\<not> path_exists f1 target"
    using ensure_unique_path_fresh by blast
  from a fresh have pf: "(e \<noteq> PermissionError \<longrightarrow> f2 = f1) \<and> (f2 = f1 \<or> f2 = f1(target := f1 cur))"
    using place_file_failure [of "move_mode cfg" f1 "locked s" cur target e f2] by blast
  then show "f2 = f1 \<or> f2 = f1(target := f1 cur)" by blast
  from cur a pf show "if e = PermissionError
         then (\<exists>s'. label_current cfg ts lbl s = Some (Returned s') \<and>
                log_file s' = log_file s \<and> queue s' = queue s \<and>
                undo_stack s' = undo_stack s \<and> current_path s' = Some cur \<and>
                player_source s' = Some cur \<and> playing s' \<and>
                warnings s' = warnings s @ [''Move failed''] \<and> fs s' = f2)
         else label_current cfg ts lbl s = Some (Raised e ((release_media s)\<lparr>fs := f1\<rparr>))"
    by (simp add: label_current_def Let_def release_media_keeps)
qed

lemma ex_locked_facts:
  "current_path ex_locked_start = Some ex_a"
  "\<not> isl (mkdir_p (fs ex_locked_start) (dest ex_keep))"
  "ensure_unique_path (projr (mkdir_p (fs ex_locked_start) (dest ex_keep)))
     (joinpath (dest ex_keep) (Path_of (name ex_a))) = Some ex_target"
  "(case place_file (move_mode ex_cfg) (projr (mkdir_p (fs ex_locked_start) (dest ex_keep)))
       (locked ex_locked_start) ex_a ex_target of
      Inl (e, f2) \<Rightarrow> e = PermissionError \<and> f2 ex_target = Some (File ''A'') \<and> f2 ex_a = Some (File ''A'')
    | Inr f \<Rightarrow> False)"
  "queue ex_locked_start = [ex_b]" "undo_stack ex_locked_start = []"
  by code_simp+

theorem permission_failure_keeps_state_witness:
  "current_path ex_locked_start = Some ex_a \<and>
   (case label_current ex_cfg ex_ts ex_keep ex_locked_start of
      Some (Returned s') \<Rightarrow>
        log_file s' = log_file ex_locked_start \<and> queue s' = [ex_b] \<and> undo_stack s' = [] \<and>
        current_path s' = Some ex_a \<and> player_source s' = Some ex_a \<and> playing s' \<and>
        fs s' ex_a = Some (File ''A'') \<and> fs s' ex_target = Some (File ''A'')
    | _ \<Rightarrow> False)"
proof -
  let ?f1 = "projr (mkdir_p (fs ex_locked_start) (dest ex_keep))"
  have mk: "mkdir_p (fs ex_locked_start) (dest ex_keep) = Inr ?f1"
    using ex_locked_facts(2) by simp
  from ex_locked_facts(4) obtain f2 where
    pl: "place_file (move_mode ex_cfg) ?f1 (locked ex_locked_start) ex_a ex_target
      = Inl (PermissionError, f2)"
    and f2: "f2 ex_target = Some (File ''A'')" "f2 ex_a = Some (File ''A'')"
    by (auto split: sum.splits prod.splits)
  from permission_failure_keeps_state [OF ex_locked_facts(1), of ex_keep ex_cfg ex_ts]
    mk ex_locked_facts(3) pl
  obtain s' where "label_current ex_cfg ex_ts ex_keep ex_locked_start = Some (Returned s')"
    "log_file s' = log_file ex_locked_start" "queue s' = queue ex_locked_start"
    "undo_stack s' = undo_stack ex_locked_start" "current_path s' = Some ex_a"
    "player_source s' = Some ex_a" "playing s'" "fs s' = f2"
    by (metis (no_types, lifting))
  then show ?thesis
    using f2 by (simp add: ex_locked_facts)
qed

lemma label_current_classified:
  assumes "current_path s = Some cur"
    and "label_current cfg ts lbl s = Some (Returned s')"
    and "undo_stack s' \<noteq> undo_stack s"
  obtains f1 target f2 where
    "mkdir_p (fs s) (dest lbl) = Inr f1"
    "ensure_unique_path f1 (joinpath (dest lbl) (Path_of (name cur))) = Some target"
    "place_file (move_mode cfg) f1 (locked s) cur target = Inr f2"
    "fs s' = f2"
  using assms
  by (auto simp: label_current_def Let_def release_media_keeps load_next_keeps log_action_keeps
      split: option.splits sum.splits if_splits)

lemma copy2_keeps_source:
  assumes "copy2 f lck src dst = Inr f2" and "\<not> path_exists f dst"
  shows "path_exists f2 src"
  using assms
  by (auto simp: copy2_def Let_def is_dir_def path_exists_def split: if_splits)

lemma shutil_move_removes_source:
  assumes "shutil_move f lck src dst = Inr f2" and "\<not> path_exists f dst"
  shows "\<not> path_exists f2 src"
  using assms
  by (auto simp: shutil_move_def Let_def is_dir_def path_exists_def split: if_splits)

text \<open>
  Claim C6. After a successful classification (the slot returned and the undo stack grew)
  the original file still exists at its source path in copy mode, and does not in move
  mode.
\<close>

theorem mode_fidelity:
  assumes "current_path s = Some cur"
    and "label_current cfg ts lbl s = Some (Returned s')"
    and "undo_stack s' \<noteq> undo_stack s"
  shows "(move_mode cfg = ''copy'' \<longrightarrow> path_exists (fs s') cur) \<and>
         (move_mode cfg = ''move'' \<longrightarrow> \<not> path_exists (fs s') cur)"
proof -
  from assms obtain f1 target f2 where
    tg: "ensure_unique_path f1 (joinpath (dest lbl) (Path_of (name cur))) = Some target"
    and pl: "place_file (move_mode cfg) f1 (locked s) cur target = Inr f2"
    and f2: "fs s' = f2"
    by (rule label_current_classified)
  from tg have fresh: "\<not> path_exists f1 target"
    by (rule ensure_unique_path_fresh)
  show ?thesis
  proof (intro conjI impI)
    assume "move_mode cfg = ''copy''"
    with pl have "copy2 f1 (locked s) cur target = Inr f2"
      by (simp add: place_file_def)
    then show "path_exists (fs s') cur"
      using fresh f2 by (simp add: copy2_keeps_source)
  next
    assume "move_mode cfg = ''move''"
    with pl have "shutil_move f1 (locked s) cur target = Inr f2"
      by (simp add: place_file_def)
    then show "\<not> path_exists (fs s') cur"
      using fresh f2 by (simp add: shutil_move_removes_source)
  qed
qed

lemma ex_classified:
  "current_path ex_start = Some ex_a"
  "(case label_current ex_cfg ex_ts ex_keep ex_start of
      Some (Returned s') \<Rightarrow> undo_stack s' \<noteq> undo_stack ex_start | _ \<Rightarrow> False)"
  "(case label_current ex_copy_cfg ex_ts ex_keep ex_start of
      Some (Returned s') \<Rightarrow> undo_stack s' \<noteq> undo_stack ex_start | _ \<Rightarrow> False)"
  "move_mode ex_cfg = ''move''" "move_mode ex_copy_cfg = ''copy''"
  by code_simp+

theorem mode_fidelity_witness:
  "current_path ex_start = Some ex_a \<and>
   (case label_current ex_cfg ex_ts ex_keep ex_start of
      Some (Returned s') \<Rightarrow> undo_stack s' \<noteq> undo_stack ex_start \<and> \<not> path_exists (fs s') ex_a
    | _ \<Rightarrow> False) \<and>
   (case label_current ex_copy_cfg ex_ts ex_keep ex_start of
      Some (Returned s') \<Rightarrow> undo_stack s' \<noteq> undo_stack ex_start \<and> path_exists (fs s') ex_a
    | _ \<Rightarrow> False)"
proof -
  from ex_classified(2) obtain s1 where
    m: "label_current ex_cfg ex_ts ex_keep ex_start = Some (Returned s1)"
      "undo_stack s1 \<noteq> undo_stack ex_start"
    by (auto split: option.splits outcome.splits)
  from ex_classified(3) obtain s2 where
    c: "label_current ex_copy_cfg ex_ts ex_keep ex_start = Some (Returned s2)"
      "undo_stack s2 \<noteq> undo_stack ex_start"
    by (auto split: option.splits outcome.splits)
  from mode_fidelity [OF ex_classified(1) m] ex_classified(4)
  have "\<not> path_exists (fs s1) ex_a" by simp
  moreover from mode_fidelity [OF ex_classified(1) c] ex_classified(5)
  have "path_exists (fs s2) ex_a" by simp
  ultimately show ?thesis
    using m c ex_classified(1) by simp
qed

subsection \<open>Parsing and printing paths\<close>

lemma split_on_no_sep: "c \<notin> set x \<Longrightarrow> split_on c x = [x]"
  by (induction x) auto

lemma split_on_append_sep: "c \<notin> set x \<Longrightarrow> split_on c (x @ c # rest) = x # split_on c rest"
  by (induction x) auto

lemma split_on_join_sep:
  "list_all part_ok ps \<Longrightarrow> ps \<noteq> [] \<Longrightarrow> split_on CHR ''/'' (join_sep ps) = ps"
proof (induction ps rule: join_sep.induct)
  case 1
  then show ?case by simp
next
  case (2 x)
  then show ?case by (simp add: part_ok_def split_on_no_sep)
next
  case (3 x y ys)
  then show ?case by (simp add: part_ok_def split_on_append_sep)
qed

lemma filter_parts_ok: "list_all part_ok ps \<Longrightarrow> filter (\<lambda>x. x \<noteq> '''' \<and> x \<noteq> ''.'') ps = ps"
  by (induction ps) (auto simp: part_ok_def)

lemma join_sep_head:
  "list_all part_ok ps \<Longrightarrow> ps \<noteq> [] \<Longrightarrow> \<exists>a rest. join_sep ps = a # rest \<and> a \<noteq> CHR ''/''"
proof (induction ps rule: join_sep.induct)
  case 1
  then show ?case by simp
next
  case (2 x)
  then show ?case by (cases x) (auto simp: part_ok_def)
next
  case (3 x y ys)
  then show ?case by (cases x) (auto simp: part_ok_def)
qed

lemma Path_of_str_of:
  assumes "path_ok p"
  shows "Path_of (str_of p) = p"
proof (cases p)
  case (PurePath r ps)
  with assms have r: "r = '''' \<or> r = ''/'' \<or> r = ''//''" and ps: "list_all part_ok ps"
    by (auto simp: path_ok_def)
  show ?thesis
  proof (cases "ps = []")
    case True
    with r PurePath show ?thesis
      by (auto simp: str_of_def Path_of_def parse_root_def)
  next
    case False
    from join_sep_head [OF ps False] obtain a rest
      where j: "join_sep ps = a # rest" "a \<noteq> CHR ''/''" by blast
    have sp: "split_on CHR ''/'' (a # rest) = ps"
      using split_on_join_sep [OF ps False] j by simp
    from r show ?thesis
    proof (elim disjE)
      assume "r = ''''"
      with PurePath j sp ps show ?thesis
        by (simp add: str_of_def Path_of_def parse_root_def filter_parts_ok del: split_on.simps)
    next
      assume "r = ''/''"
      with PurePath j sp ps show ?thesis
        using split_on.simps(2) [of "CHR ''/''" "CHR ''/''" "a # rest"]
        by (simp add: str_of_def Path_of_def parse_root_def filter_parts_ok del: split_on.simps)
    next
      assume "r = ''//''"
      with PurePath j sp ps show ?thesis
        using split_on.simps(2) [of "CHR ''/''" "CHR ''/''" "a # rest"]
          split_on.simps(2) [of "CHR ''/''" "CHR ''/''" "CHR ''/'' # a # rest"]
        by (simp add: str_of_def Path_of_def parse_root_def filter_parts_ok del: split_on.simps)
    qed
  qed
qed

lemma Path_of_part: "part_ok x \<Longrightarrow> Path_of x = PurePath '''' [x]"
  by (cases x) (auto simp: Path_of_def parse_root_def part_ok_def split_on_no_sep
      simp del: split_on.simps)

lemma joinpath_part: "part_ok x \<Longrightarrow> joinpath p (Path_of x) = make_child p x"
  by (simp add: Path_of_part joinpath_def is_absolute_def make_child_def)

subsection \<open>Queue construction\<close>

lemma lower_supported_examples:
  "lower ''.MP4'' \<in> SUPPORTED_EXTENSIONS"
  "lower (''.m'' @ [CHR 0xE2, CHR 0x84, CHR 0xAA] @ ''v'') = ''.mkv''"
  "lower ''.txt'' \<notin> SUPPORTED_EXTENSIONS"
  by code_simp+

lemma dict_get_empty_row: "dict_get h [] k = None"
  by (simp add: dict_get_def)

lemma read_logged_paths_eq:
  "read_logged_paths lg = Path_of ` (original_path_values lg - {''''})"
proof (cases lg)
  case None
  then show ?thesis by (simp add: read_logged_paths_def original_path_values_def)
next
  case (Some rows)
  show ?thesis
  proof (cases rows)
    case Nil
    with Some show ?thesis by (simp add: read_logged_paths_def original_path_values_def)
  next
    case (Cons h rs)
    have "set (List.map_filter (logged_path h) (filter (\<lambda>r. r \<noteq> []) rs)) =
          Path_of ` (set (List.map_filter (\<lambda>r. dict_get h r ''original_path'') rs) - {''''})"
      by (induction rs)
        (auto simp: List.map_filter_simps logged_path_def dict_get_empty_row
          split: option.splits if_splits)
    with Some Cons show ?thesis
      by (simp add: read_logged_paths_def original_path_values_def)
  qed
qed


lemma make_child_not_empty: "make_child d n \<noteq> Path_of ''''"
  by (simp add: make_child_def Path_of_def parse_root_def)

lemma child_logged_iff:
  "make_child d n \<in> read_logged_paths lg \<longleftrightarrow> make_child d n \<in> Path_of ` original_path_values lg"
  using make_child_not_empty [of d n]
  by (auto simp: read_logged_paths_eq)

lemma set_build_queue:
  "set (build_queue f lg d listing) =
     {p \<in> make_child d ` set listing.
        is_file f p \<and> lower (suffix p) \<in> SUPPORTED_EXTENSIONS \<and>
        p \<notin> Path_of ` original_path_values lg}"
proof -
  have eq: "(p \<in> read_logged_paths lg) = (p \<in> Path_of ` original_path_values lg)"
    if "p \<in> make_child d ` set listing" for p
  proof -
    from that obtain n where "p = make_child d n" by blast
    then show ?thesis by (simp only: child_logged_iff)
  qed
  have "set (build_queue f lg d listing) =
     {p \<in> make_child d ` set listing.
        is_file f p \<and> lower (suffix p) \<in> SUPPORTED_EXTENSIONS \<and> p \<notin> read_logged_paths lg}"
    by (auto simp: build_queue_def Let_def)
  also have "\<dots> = {p \<in> make_child d ` set listing.
        is_file f p \<and> lower (suffix p) \<in> SUPPORTED_EXTENSIONS \<and>
        p \<notin> Path_of ` original_path_values lg}"
    using eq by blast
  finally show ?thesis .
qed



lemma logged_string_excluded:
  assumes "path_ok p" and "str_of p \<in> original_path_values lg"
  shows "p \<notin> set (build_queue f lg d listing)"
proof -
  from assms(2) have "Path_of (str_of p) \<in> Path_of ` original_path_values lg"
    by (rule imageI)
  with assms(1) have "p \<in> Path_of ` original_path_values lg"
    by (simp add: Path_of_str_of)
  then show ?thesis by (simp add: set_build_queue)
qed





subsection \<open>Skip\<close>

lemma foldl_append_row: "foldl append_row (Some rows) later = Some (rows @ later)"
  by (induction later arbitrary: rows) (simp_all add: append_row_def)

lemma dict_get_header_original:
  "dict_get log_header [a, b, c, d, e, g] ''original_path'' = Some d"
  by (simp add: dict_get_def log_header_def)

lemma skip_row_logged:
  assumes "lg = Some (log_header # rows)"
  shows "d \<in> original_path_values (foldl append_row (append_row lg [a, b, c, d, e, g]) later)"
proof -
  have "foldl append_row (append_row lg [a, b, c, d, e, g]) later =
        Some (log_header # (rows @ [a, b, c, d, e, g] # later))"
    using assms by (simp add: append_row_def foldl_append_row)
  then show ?thesis
    using dict_get_header_original [of a b c d e g]
    by (force simp: original_path_values_def List.map_filter_def image_iff)
qed

lemma skip_current_fields:
  assumes "current_path s = Some P"
  shows "log_file (skip_current ts s) =
           append_row (log_file s) [ts, '''', ''skip'', str_of P, str_of P, ''skip'']"
    and "fs (skip_current ts s) = fs s"
    and "undo_stack (skip_current ts s) = undo_stack s"
  using assms
  by (simp_all add: skip_current_def load_next_keeps log_action_keeps release_media_keeps)

lemma skip_current_advances:
  assumes "current_path s = Some P"
  shows "queue s = [] \<Longrightarrow> current_path (skip_current ts s) = None \<and> queue (skip_current ts s) = []"
    and "queue s = q # rest \<Longrightarrow>
           current_path (skip_current ts s) = Some q \<and> queue (skip_current ts s) = rest"
  using assms
  by (simp_all add: skip_current_def load_next_def log_action_keeps release_media_keeps)

text \<open>
  Claim C5. With a current item \<open>P\<close>, skip appends one row to the log: the timestamp, an
  empty key, the label \<^verbatim>\<open>skip\<close>, the path string of \<open>P\<close> as original path and as
  destination path, and the action \<^verbatim>\<open>skip\<close>. The filesystem and the undo stack are as
  before, and the next item of the queue becomes current (none when the queue is empty).
  When the log file exists and begins with the header row, \<open>P\<close> is in no queue built from
  the log as the skip leaves it, whatever rows are appended later.
\<close>

theorem skip_logs_and_advances:
  assumes "current_path s = Some P"
  shows "log_file (skip_current ts s) =
           append_row (log_file s) [ts, '''', ''skip'', str_of P, str_of P, ''skip''] \<and>
         fs (skip_current ts s) = fs s \<and>
         undo_stack (skip_current ts s) = undo_stack s \<and>
         (case queue s of
            [] \<Rightarrow> current_path (skip_current ts s) = None \<and> queue (skip_current ts s) = []
          | q # rest \<Rightarrow>
              current_path (skip_current ts s) = Some q \<and> queue (skip_current ts s) = rest) \<and>
         (path_ok P \<and> log_file s \<noteq> None \<and> begins_with_header (log_file s) \<longrightarrow>
            (\<forall>f d listing later.
               P \<notin> set (build_queue f (foldl append_row (log_file (skip_current ts s)) later)
                           d listing)))"
proof (intro conjI impI allI)
  show "log_file (skip_current ts s) =
           append_row (log_file s) [ts, '''', ''skip'', str_of P, str_of P, ''skip'']"
    using assms by (rule skip_current_fields)
  show "fs (skip_current ts s) = fs s"
    using assms by (rule skip_current_fields)
  show "undo_stack (skip_current ts s) = undo_stack s"
    using assms by (rule skip_current_fields)
  show "case queue s of
            [] \<Rightarrow> current_path (skip_current ts s) = None \<and> queue (skip_current ts s) = []
          | q # rest \<Rightarrow>
              current_path (skip_current ts s) = Some q \<and> queue (skip_current ts s) = rest"
    using skip_current_advances [OF assms] by (cases "queue s") simp_all
next
  fix f d listing later
  assume a: "path_ok P \<and> log_file s \<noteq> None \<and> begins_with_header (log_file s)"
  then obtain rows where lg: "log_file s = Some (log_header # rows)"
    by (auto simp: begins_with_header_def neq_Nil_conv)
  have "str_of P \<in> original_path_values
          (foldl append_row (log_file (skip_current ts s)) later)"
    using skip_row_logged [OF lg] skip_current_fields(1) [OF assms] by simp
  with a show "P \<notin> set (build_queue f (foldl append_row (log_file (skip_current ts s)) later)
                           d listing)"
    using logged_string_excluded by blast
qed

lemma ex_skip_facts:
  "current_path ex_start = Some ex_a" "path_ok ex_a"
  "log_file ex_start = Some [log_header]" "queue ex_start = [ex_b]"
  by code_simp+

theorem skip_logs_and_advances_witness:
  "current_path ex_start = Some ex_a \<and> path_ok ex_a \<and> log_file ex_start \<noteq> None \<and>
   begins_with_header (log_file ex_start) \<and>
   log_file (skip_current ex_ts ex_start) =
     Some [log_header, [ex_ts, '''', ''skip'', ''videos/a.mp4'', ''videos/a.mp4'', ''skip'']] \<and>
   current_path (skip_current ex_ts ex_start) = Some ex_b \<and>
   queue (skip_current ex_ts ex_start) = [] \<and>
   ex_a \<notin> set (build_queue ex_fs (log_file (skip_current ex_ts ex_start))
                 (source_dir ex_cfg) [''b.mp4'', ''a.mp4''])"
proof -
  have b: "log_file ex_start \<noteq> None \<and> begins_with_header (log_file ex_start)"
    by (simp add: ex_skip_facts(3) begins_with_header_def)
  note inst = skip_logs_and_advances [OF ex_skip_facts(1), of ex_ts]
  from inst have l: "log_file (skip_current ex_ts ex_start) =
     Some [log_header, [ex_ts, '''', ''skip'', str_of ex_a, str_of ex_a, ''skip'']]"
    by (simp add: ex_skip_facts(3) append_row_def)
  have st: "str_of ex_a = ''videos/a.mp4''" by code_simp
  from inst have q: "current_path (skip_current ex_ts ex_start) = Some ex_b \<and>
      queue (skip_current ex_ts ex_start) = []"
    by (simp add: ex_skip_facts(4))
  from inst b ex_skip_facts(2) have
    "\<forall>f d listing later.
       ex_a \<notin> set (build_queue f (foldl append_row (log_file (skip_current ex_ts ex_start)) later)
                     d listing)"
    by blast
  from this [rule_format, of ex_fs "[]" "source_dir ex_cfg" "[''b.mp4'', ''a.mp4'']"]
  have x: "ex_a \<notin> set (build_queue ex_fs (log_file (skip_current ex_ts ex_start))
                 (source_dir ex_cfg) [''b.mp4'', ''a.mp4''])"
    by simp
  from b l st q x ex_skip_facts(1,2) show ?thesis by simp
qed

text \<open>
  The header is written only when the log file is absent at start-up. With a log file that
  exists and is empty, the row of the skip is the first row of the file, which the reader
  takes as the field names: the queue built from that log offers \<^verbatim>\<open>a.mp4\<close> again.
\<close>

theorem skip_with_empty_log_file_is_offered_again:
  "current_path ex_empty_log_start = Some ex_a \<and>
   log_file (skip_current ex_ts ex_empty_log_start) =
     Some [[ex_ts, '''', ''skip'', ''videos/a.mp4'', ''videos/a.mp4'', ''skip'']] \<and>
   build_queue ex_fs (log_file (skip_current ex_ts ex_empty_log_start))
     (source_dir ex_cfg) [''b.mp4'', ''a.mp4''] = [ex_a, ex_b] \<and>
   current_path (init_state ex_cfg ex_fs {} (log_file (skip_current ex_ts ex_empty_log_start))
     [''b.mp4'', ''a.mp4'']) = Some ex_a"
  by code_simp

end
